theory Spec2Isabelle
  imports Main "HOL-Library.Word"
begin

unbundle bit_operations_syntax

section \<open>NTS-KE records, the decode loop and key export (net/ntske/ntske.go)\<close>

subsection \<open>Basic types\<close>

type_synonym byte = "8 word"
type_synonym uint16 = "16 word"

text \<open>
  A Go \<open>error\<close> value: the two sentinel errors of package \<open>io\<close> that reach this code, and
  an error made by \<open>errors.New\<close> or \<open>fmt.Errorf\<close> (or by an external call), identified by
  its message. \<open>None :: error option\<close> is Go's \<open>nil\<close> error.
\<close>

datatype error = io_EOF | io_ErrUnexpectedEOF | errorString string

text \<open>\<open>Data\<close> is the negotiated data; a \<open>nil\<close> byte slice is the empty list.\<close>

record Data =
  C2sKey :: "byte list"
  S2cKey :: "byte list"
  Server :: string
  Port :: uint16
  Cookie :: "byte list list"
  Algo :: uint16

definition RecEom :: uint16 where "RecEom = 0"
definition RecNextproto :: uint16 where "RecNextproto = 1"
definition RecError :: uint16 where "RecError = 2"
definition RecWarning :: uint16 where "RecWarning = 3"
definition RecAead :: uint16 where "RecAead = 4"
definition RecCookie :: uint16 where "RecCookie = 5"
definition RecServer :: uint16 where "RecServer = 6"
definition RecPort :: uint16 where "RecPort = 7"

definition AES_SIV_CMAC_256 :: uint16 where "AES_SIV_CMAC_256 = 0x0f"


record RecordHdr =
  Type :: uint16
  BodyLen :: uint16

definition setBit :: "uint16 \<Rightarrow> nat \<Rightarrow> uint16" where
  "setBit n pos = n OR push_bit pos 1"

definition hasBit :: "uint16 \<Rightarrow> nat \<Rightarrow> bool" where
  "hasBit n pos = (let val = n AND push_bit pos 1 in val > 0)"

subsection \<open>The byte stream: a transport behind a \<open>bufio.Reader\<close>\<close>

text \<open>
  The transport (the TLS connection) is the list of chunks that its successive \<open>Read\<close>
  calls have to deliver; when the list is exhausted every further \<open>Read\<close> returns
  \<open>(0, io.EOF)\<close>. \<open>conn_Read cs k\<close> is one \<open>Read\<close> into a slice of \<open>k\<close> bytes: it
  delivers at most \<open>k\<close> bytes of the first chunk and leaves the rest of that chunk for the
  next call (an empty chunk is a \<open>Read\<close> that returns \<open>(0, nil)\<close>). An error is only
  ever returned together with zero bytes.
\<close>

fun conn_Read :: "byte list list \<Rightarrow> nat \<Rightarrow> (byte list \<times> error option) \<times> byte list list" where
  "conn_Read [] k = (([], Some io_EOF), [])"
| "conn_Read (c # cs) k =
     ((take k c, None), (if length c \<le> k then cs else drop k c # cs))"

text \<open>
  The reader made by \<open>bufio.NewReader\<close>: \<open>buffered\<close> holds the bytes that are in the
  buffer and not yet consumed (\<open>b.buf[b.r:b.w]\<close>), \<open>rd\<close> is the transport. The buffer has
  \<open>defaultBufSize\<close> bytes. Since the transport returns an error only with zero bytes, the
  reader's stored error is always cleared again by \<open>readErr\<close> before a call returns, and
  is not part of the state.
\<close>

record bufio_Reader =
  buffered :: "byte list"
  rd :: "byte list list"

definition defaultBufSize :: nat where "defaultBufSize = 4096"

definition NewReader :: "byte list list \<Rightarrow> bufio_Reader" where
  "NewReader conn = \<lparr>buffered = [], rd = conn\<rparr>"

text \<open>
  \<open>bufio.Reader.Read\<close> into a slice of \<open>n\<close> bytes. It returns the bytes it stored at the
  front of the slice (their number is Go's \<open>n\<close>) and the error. It makes at most one
  \<open>Read\<close> on the transport, so it may return fewer than \<open>n\<close> bytes with a \<open>nil\<close> error:
  \<^item> a slice of length 0: \<open>(0, nil)\<close>;
  \<^item> nothing buffered and \<open>n\<close> at least the buffer size: one transport read straight
    into the slice;
  \<^item> nothing buffered otherwise: one transport read into the buffer, then copy;
  \<^item> something buffered: copy as much as there is, no transport read.
\<close>

definition bufio_Read :: "bufio_Reader \<Rightarrow> nat \<Rightarrow> (byte list \<times> error option) \<times> bufio_Reader" where
  "bufio_Read b n =
     (if n = 0 then (([], None), b)
      else if buffered b = [] then
        (if defaultBufSize \<le> n then
           (case conn_Read (rd b) n of (res, rd') \<Rightarrow> (res, b\<lparr>rd := rd'\<rparr>))
         else
           (case conn_Read (rd b) defaultBufSize of
              ((bs, e), rd') \<Rightarrow>
                if bs = [] then (([], e), b\<lparr>rd := rd'\<rparr>)
                else ((take n bs, None), b\<lparr>buffered := drop n bs, rd := rd'\<rparr>)))
      else ((take n (buffered b), None), b\<lparr>buffered := drop n (buffered b)\<rparr>))"

text \<open>All bytes a reader can still deliver, in order.\<close>

definition pending :: "bufio_Reader \<Rightarrow> byte list" where
  "pending b = buffered b @ concat (rd b)"

text \<open>
  \<open>io.ReadFull\<close> (that is \<open>io.ReadAtLeast\<close> with \<open>min = len(buf)\<close>): the loop calls
  \<open>Read\<close> on the rest of the slice until it is full or an error comes back. \<open>k\<close> is the
  number of bytes still missing, \<open>acc\<close> the bytes read so far.
\<close>

function io_ReadFull_loop ::
  "bufio_Reader \<Rightarrow> nat \<Rightarrow> byte list \<Rightarrow> (byte list \<times> error option) \<times> bufio_Reader" where
  "io_ReadFull_loop b k acc =
     (if k = 0 then ((acc, None), b)
      else
        (case bufio_Read b k of
           ((bs, Some err), b') \<Rightarrow> ((acc @ bs, Some err), b')
         | ((bs, None), b') \<Rightarrow> io_ReadFull_loop b' (k - length bs) (acc @ bs)))"
  by pat_completeness auto

text \<open>
  The loop terminates: every \<open>Read\<close> that returns without an error takes bytes out of
  the reader or a chunk off the transport.
\<close>

definition weight :: "bufio_Reader \<Rightarrow> nat" where
  "weight b = length (buffered b) + length (concat (rd b)) + length (rd b)"

lemma conn_Read_pending:
  "conn_Read cs k = ((bs, e), cs') \<Longrightarrow> concat cs = bs @ concat cs'"
  by (cases cs) (auto split: if_splits)

lemma conn_Read_length:
  "conn_Read cs k = ((bs, e), cs') \<Longrightarrow> length bs \<le> k"
  by (cases cs) (auto split: if_splits)

lemma conn_Read_count:
  "conn_Read cs k = ((bs, None), cs') \<Longrightarrow> length cs' \<le> length cs \<and> (bs = [] \<longrightarrow> 0 < k \<longrightarrow> length cs' < length cs)"
  by (cases cs) (auto split: if_splits)

lemma conn_Read_err:
  "conn_Read cs k = ((bs, Some err), cs') \<Longrightarrow> bs = [] \<and> cs = [] \<and> cs' = [] \<and> err = io_EOF"
  by (cases cs) (auto split: if_splits)

lemma bufio_Read_pending:
  "bufio_Read b n = ((bs, e), b') \<Longrightarrow> pending b = bs @ pending b'"
  by (auto simp: bufio_Read_def pending_def split: if_splits prod.splits dest: conn_Read_pending)

lemma bufio_Read_length:
  "bufio_Read b n = ((bs, e), b') \<Longrightarrow> length bs \<le> n"
  by (auto simp: bufio_Read_def split: if_splits prod.splits dest: conn_Read_length)

lemma bufio_Read_weight:
  assumes a: "bufio_Read b n = ((bs, None), b')" and n: "0 < n"
  shows "weight b' < weight b"
proof -
  show ?thesis
  proof (cases "buffered b = []")
    case False
    with a n show ?thesis
      by (auto simp: bufio_Read_def weight_def split: if_splits)
  next
    case True
    show ?thesis
    proof (cases "defaultBufSize \<le> n")
      case T2: True
      with a n True obtain cs' where c: "conn_Read (rd b) n = ((bs, None), cs')" and b': "b' = b\<lparr>rd := cs'\<rparr>"
        by (auto simp: bufio_Read_def split: prod.splits)
      from conn_Read_pending[OF c] conn_Read_count[OF c] n b' show ?thesis
        by (cases bs) (auto simp: weight_def)
    next
      case F2: False
      with a n True obtain cs' bs0 where c: "conn_Read (rd b) defaultBufSize = ((bs0, None), cs')"
         and b': "b' = (if bs0 = [] then b\<lparr>rd := cs'\<rparr> else b\<lparr>buffered := drop n bs0, rd := cs'\<rparr>)"
        by (auto simp: bufio_Read_def split: prod.splits if_splits dest: conn_Read_err)
      from conn_Read_pending[OF c] conn_Read_count[OF c] n b' show ?thesis
        by (cases bs0) (auto simp: weight_def defaultBufSize_def)
    qed
  qed
qed

termination io_ReadFull_loop
  by (relation "measure (\<lambda>(b, k, acc). weight b)") (auto dest: bufio_Read_weight [OF sym])

declare io_ReadFull_loop.simps [simp del]

lemma io_ReadFull_loop_0 [simp]: "io_ReadFull_loop b 0 acc = ((acc, None), b)"
  by (simp add: io_ReadFull_loop.simps)

definition io_ReadFull :: "bufio_Reader \<Rightarrow> nat \<Rightarrow> (byte list \<times> error option) \<times> bufio_Reader" where
  "io_ReadFull b n =
     (case io_ReadFull_loop b n [] of
        ((bs, err), b') \<Rightarrow>
          if n \<le> length bs then ((bs, None), b')
          else if 0 < length bs \<and> err = Some io_EOF then ((bs, Some io_ErrUnexpectedEOF), b')
          else ((bs, err), b'))"

lemma io_ReadFull_loop_pending:
  "io_ReadFull_loop b k acc = ((bs, e), b') \<Longrightarrow> acc @ pending b = bs @ pending b'"
proof (induction b k acc rule: io_ReadFull_loop.induct)
  case (1 b k acc)
  show ?case
  proof (cases "k = 0")
    case True
    with "1.prems" show ?thesis by simp
  next
    case False
    obtain bs1 e1 b1 where r: "bufio_Read b k = ((bs1, e1), b1)"
      by (metis prod.exhaust)
    show ?thesis
    proof (cases e1)
      case None
      with "1.prems" False r have "io_ReadFull_loop b1 (k - length bs1) (acc @ bs1) = ((bs, e), b')"
        by (simp add: io_ReadFull_loop.simps [of b k acc])
      from "1.IH"[OF False r[symmetric] refl None this] bufio_Read_pending[OF r]
      show ?thesis by simp
    next
      case (Some err)
      with "1.prems" False r bufio_Read_pending[OF r] show ?thesis
        by (auto simp: io_ReadFull_loop.simps [of b k acc])
    qed
  qed
qed

lemma io_ReadFull_loop_length:
  "io_ReadFull_loop b k acc = ((bs, e), b') \<Longrightarrow>
     length bs \<le> length acc + k \<and> (e = None \<longrightarrow> length bs = length acc + k)"
proof (induction b k acc rule: io_ReadFull_loop.induct)
  case (1 b k acc)
  show ?case
  proof (cases "k = 0")
    case True
    with "1.prems" show ?thesis by auto
  next
    case False
    obtain bs1 e1 b1 where r: "bufio_Read b k = ((bs1, e1), b1)"
      by (metis prod.exhaust)
    show ?thesis
    proof (cases e1)
      case None
      with "1.prems" False r have "io_ReadFull_loop b1 (k - length bs1) (acc @ bs1) = ((bs, e), b')"
        by (simp add: io_ReadFull_loop.simps [of b k acc])
      from "1.IH"[OF False r[symmetric] refl None this] bufio_Read_length[OF r]
      show ?thesis by auto
    next
      case (Some err)
      with "1.prems" False r bufio_Read_length[OF r] show ?thesis
        by (auto simp: io_ReadFull_loop.simps [of b k acc])
    qed
  qed
qed

lemma io_ReadFull_pending:
  "io_ReadFull b n = ((bs, e), b') \<Longrightarrow> pending b = bs @ pending b'"
  by (auto simp: io_ReadFull_def split: prod.splits if_splits dest!: io_ReadFull_loop_pending)

lemma io_ReadFull_length:
  "io_ReadFull b n = ((bs, None), b') \<Longrightarrow> length bs = n"
  by (auto simp: io_ReadFull_def split: prod.splits if_splits dest!: io_ReadFull_loop_length)

subsection \<open>\<open>binary.Read\<close> with \<open>binary.BigEndian\<close>\<close>

text \<open>
  \<open>binary.BigEndian.Uint16\<close>: \<open>uint16(b[1]) | uint16(b[0])<<8\<close>. It is only applied to
  slices that \<open>io.ReadFull\<close> has filled with two bytes.
\<close>

fun BigEndian_Uint16 :: "byte list \<Rightarrow> uint16" where
  "BigEndian_Uint16 (b0 # b1 # bs) = ucast b1 OR push_bit 8 (ucast b0)"
| "BigEndian_Uint16 bs = 0"

text \<open>
  \<open>binary.Read\<close> computes the encoded size of the value it is given, fills a slice of
  that size with \<open>io.ReadFull\<close>, returns the error of \<open>io.ReadFull\<close> if there is one (the
  value is then left as it was) and decodes the slice otherwise. The three uses:
  a pointer to a \<open>uint16\<close> (2 bytes), a pointer to a \<open>RecordHdr\<close> (4 bytes, the two
  fields in order), and a pointer to a byte slice of length \<open>n\<close> (\<open>n\<close> bytes).
\<close>

definition binary_Read_uint16 :: "bufio_Reader \<Rightarrow> (error + uint16) \<times> bufio_Reader" where
  "binary_Read_uint16 r =
     (case io_ReadFull r 2 of
        ((bs, Some err), r') \<Rightarrow> (Inl err, r')
      | ((bs, None), r') \<Rightarrow> (Inr (BigEndian_Uint16 bs), r'))"

definition binary_Read_RecordHdr :: "bufio_Reader \<Rightarrow> (error + RecordHdr) \<times> bufio_Reader" where
  "binary_Read_RecordHdr r =
     (case io_ReadFull r 4 of
        ((bs, Some err), r') \<Rightarrow> (Inl err, r')
      | ((bs, None), r') \<Rightarrow>
          (Inr \<lparr>Type = BigEndian_Uint16 (take 2 bs), BodyLen = BigEndian_Uint16 (drop 2 bs)\<rparr>, r'))"

definition binary_Read_bytes :: "bufio_Reader \<Rightarrow> nat \<Rightarrow> (error + byte list) \<times> bufio_Reader" where
  "binary_Read_bytes r n =
     (case io_ReadFull r n of
        ((bs, Some err), r') \<Rightarrow> (Inl err, r')
      | ((bs, None), r') \<Rightarrow> (Inr bs, r'))"

lemma io_ReadFull_ok:
  "io_ReadFull b n = ((bs, None), b') \<Longrightarrow> pending b = bs @ pending b' \<and> length bs = n"
  using io_ReadFull_pending io_ReadFull_length by blast

lemma binary_Read_RecordHdr_less:
  "binary_Read_RecordHdr r = (Inr h, r') \<Longrightarrow> length (pending r') < length (pending r)"
  by (auto simp: binary_Read_RecordHdr_def split: prod.splits option.splits
      dest!: io_ReadFull_ok)

lemma binary_Read_uint16_le:
  "binary_Read_uint16 r = (x, r') \<Longrightarrow> length (pending r') \<le> length (pending r)"
  by (auto simp: binary_Read_uint16_def split: prod.splits option.splits
      dest!: io_ReadFull_pending)

lemma binary_Read_bytes_le:
  "binary_Read_bytes r n = (x, r') \<Longrightarrow> length (pending r') \<le> length (pending r)"
  by (auto simp: binary_Read_bytes_def split: prod.splits option.splits
      dest!: io_ReadFull_pending)

lemma bufio_Read_le:
  "bufio_Read r n = (x, r') \<Longrightarrow> length (pending r') \<le> length (pending r)"
  by (cases x) (auto dest!: bufio_Read_pending)

subsection \<open>The decode loop\<close>

text \<open>
  The decimal numeral of a natural number: \<open>strconv.Itoa\<close>, and what the verb \<open>%v\<close>
  of package \<open>fmt\<close> prints for a \<open>uint16\<close>.
\<close>

fun Itoa :: "nat \<Rightarrow> string" where
  "Itoa n = (if n < 10 then [char_of (48 + n)]
             else Itoa (n div 10) @ [char_of (48 + n mod 10)])"

declare Itoa.simps [simp del]

text \<open>\<open>string(address)\<close>: the bytes of the slice as a Go string.\<close>

definition string_of_bytes :: "byte list \<Rightarrow> string" where
  "string_of_bytes bs = map (\<lambda>b. char_of (unat b)) bs"

text \<open>
  \<open>Read\<close> takes the reader and the \<open>Data\<close> it fills in through its pointer, and returns
  the error (\<open>None\<close> for \<open>nil\<close>), the \<open>Data\<close> as the call leaves it, also when it fails,
  and the reader. The cookie slice is made with \<open>BodyLen\<close> zero bytes and
  \<open>reader.Read\<close> overwrites as many of them as it delivers.
\<close>

function Read :: "bufio_Reader \<Rightarrow> Data \<Rightarrow> error option \<times> Data \<times> bufio_Reader" where
  "Read reader data =
     (case binary_Read_RecordHdr reader of
        (Inl err, reader1) \<Rightarrow> (Some err, data, reader1)
      | (Inr msg0, reader1) \<Rightarrow>
          (let critical = (if hasBit (Type msg0) 15 then True else False);
               msg = msg0\<lparr>Type := Type msg0 AND NOT (push_bit 15 1)\<rparr>
           in
             if Type msg = RecEom then (None, data, reader1)
             else if Type msg = RecNextproto then
               (case binary_Read_uint16 reader1 of
                  (Inl err, reader2) \<Rightarrow> (Some (errorString ''buffer overrun''), data, reader2)
                | (Inr nextProto, reader2) \<Rightarrow> Read reader2 data)
             else if Type msg = RecAead then
               (case binary_Read_uint16 reader1 of
                  (Inl err, reader2) \<Rightarrow> (Some (errorString ''buffer overrun''), data, reader2)
                | (Inr aead, reader2) \<Rightarrow> Read reader2 (data\<lparr>Algo := aead\<rparr>))
             else if Type msg = RecCookie then
               (case bufio_Read reader1 (unat (BodyLen msg)) of
                  ((bs, Some err), reader2) \<Rightarrow>
                    (Some (errorString ''buffer overrun''), data, reader2)
                | ((bs, None), reader2) \<Rightarrow>
                    (let cookie = bs @ replicate (unat (BodyLen msg) - length bs) 0
                     in Read reader2 (data\<lparr>Cookie := Cookie data @ [cookie]\<rparr>)))
             else if Type msg = RecServer then
               (case binary_Read_bytes reader1 (unat (BodyLen msg)) of
                  (Inl err, reader2) \<Rightarrow> (Some (errorString ''buffer overrun''), data, reader2)
                | (Inr address, reader2) \<Rightarrow>
                    Read reader2 (data\<lparr>Server := string_of_bytes address\<rparr>))
             else if Type msg = RecPort then
               (case binary_Read_uint16 reader1 of
                  (Inl err, reader2) \<Rightarrow> (Some (errorString ''buffer overrun''), data, reader2)
                | (Inr port, reader2) \<Rightarrow> Read reader2 (data\<lparr>Port := port\<rparr>))
             else if critical then
               (Some (errorString (''unknown record type '' @ Itoa (unat (Type msg)) @
                                   '' with critical bit set'')), data, reader1)
             else
               (case binary_Read_bytes reader1 (unat (BodyLen msg)) of
                  (Inl err, reader2) \<Rightarrow> (Some (errorString ''buffer overrun''), data, reader2)
                | (Inr unknownMsg, reader2) \<Rightarrow> Read reader2 data)))"
  by pat_completeness auto
termination
proof (relation "measure (\<lambda>(reader, data). length (pending reader))", goal_cases)
  case 1
  show ?case by simp
next
  case 2 then show ?case
    by (auto dest!: binary_Read_RecordHdr_less [OF sym] binary_Read_uint16_le [OF sym])
next
  case 3 then show ?case
    by (auto dest!: binary_Read_RecordHdr_less [OF sym] binary_Read_uint16_le [OF sym])
next
  case 4 then show ?case
    by (auto dest!: binary_Read_RecordHdr_less [OF sym] bufio_Read_le [OF sym])
next
  case 5 then show ?case
    by (auto dest!: binary_Read_RecordHdr_less [OF sym] binary_Read_bytes_le [OF sym])
next
  case 6 then show ?case
    by (auto dest!: binary_Read_RecordHdr_less [OF sym] binary_Read_uint16_le [OF sym])
next
  case 7 then show ?case
    by (auto dest!: binary_Read_RecordHdr_less [OF sym] binary_Read_bytes_le [OF sym])
qed


declare Read.simps [simp del]

subsection \<open>Packing records\<close>

text \<open>
  The values this file hands to \<open>binary.Write\<close>: a \<open>uint16\<close>, a byte slice, a slice of
  \<open>uint16\<close> and a \<open>RecordHdr\<close>. \<open>binary.Write\<close> returns an error only for a value
  without a fixed size, so for these four it always succeeds; the target is a
  \<open>bytes.Buffer\<close>, whose writes do not fail.
\<close>

datatype wire_value =
  V_uint16 uint16
| V_bytes "byte list"
| V_uint16s "uint16 list"
| V_RecordHdr RecordHdr

definition PutUint16 :: "uint16 \<Rightarrow> byte list" where
  "PutUint16 v = [ucast (drop_bit 8 v), ucast v]"

fun binary_Write :: "wire_value \<Rightarrow> error + byte list" where
  "binary_Write (V_uint16 v) = Inr (PutUint16 v)"
| "binary_Write (V_bytes bs) = Inr bs"
| "binary_Write (V_uint16s vs) = Inr (concat (map PutUint16 vs))"
| "binary_Write (V_RecordHdr h) = Inr (PutUint16 (Type h) @ PutUint16 (BodyLen h))"

text \<open>
  A \<open>bytes.Buffer\<close> is the list of its bytes; every function that writes to \<open>buf\<close> takes
  it and returns it extended. \<open>uint16(bodylen)\<close> keeps the low 16 bits of the length.
\<close>

definition RecordHdr_pack :: "RecordHdr \<Rightarrow> byte list \<Rightarrow> error + byte list" where
  "RecordHdr_pack h buf =
     (case binary_Write (V_RecordHdr h) of Inl err \<Rightarrow> Inl err | Inr bs \<Rightarrow> Inr (buf @ bs))"

definition packheader :: "uint16 \<Rightarrow> bool \<Rightarrow> byte list \<Rightarrow> nat \<Rightarrow> error + byte list" where
  "packheader t c buf bodylen =
     (let hdr = \<lparr>Type = 0, BodyLen = 0\<rparr>;
          hdr = hdr\<lparr>Type := t\<rparr>;
          hdr = (if c then hdr\<lparr>Type := setBit (Type hdr) 15\<rparr> else hdr);
          hdr = hdr\<lparr>BodyLen := of_nat bodylen\<rparr>
      in case RecordHdr_pack hdr buf of Inl err \<Rightarrow> Inl err | Inr buf' \<Rightarrow> Inr buf')"

definition packsimple :: "uint16 \<Rightarrow> bool \<Rightarrow> wire_value \<Rightarrow> byte list \<Rightarrow> error + byte list" where
  "packsimple t c v buf =
     (case binary_Write v of
        Inl err \<Rightarrow> Inl err
      | Inr val \<Rightarrow>
          (case packheader t c buf (length val) of
             Inl err \<Rightarrow> Inl err
           | Inr buf' \<Rightarrow> Inr (buf' @ val)))"

text \<open>
  The eight record types that implement the interface \<open>Record\<close>, each with its embedded
  \<open>RecordHdr\<close> and its own fields in the order of the struct.
\<close>

datatype Record =
  NextProto RecordHdr uint16
| End RecordHdr
| Server_Record RecordHdr "byte list" bool
| Port_Record RecordHdr uint16 bool
| Cookie_Record RecordHdr "byte list"
| Warning RecordHdr uint16
| Error RecordHdr uint16
| Algorithm RecordHdr "uint16 list"

definition NTPv4 :: uint16 where "NTPv4 = 0"

fun pack :: "Record \<Rightarrow> byte list \<Rightarrow> error + byte list" where
  "pack (NextProto h n) buf =
     (case binary_Write (V_uint16 n) of
        Inl err \<Rightarrow> Inl err
      | Inr val \<Rightarrow>
          (let h = h\<lparr>Type := RecNextproto\<rparr>;
               h = h\<lparr>Type := setBit (Type h) 15\<rparr>;
               h = h\<lparr>BodyLen := of_nat (length val)\<rparr>
           in case RecordHdr_pack h buf of
                Inl err \<Rightarrow> Inl err
              | Inr buf' \<Rightarrow> Inr (buf' @ val)))"
| "pack (End h) buf = packheader RecEom True buf 0"
| "pack (Server_Record h addr critical) buf = packsimple RecServer critical (V_bytes addr) buf"
| "pack (Port_Record h port critical) buf = packsimple RecPort critical (V_uint16 port) buf"
| "pack (Cookie_Record h cookie) buf = packsimple RecCookie False (V_bytes cookie) buf"
| "pack (Warning h code) buf = packsimple RecWarning True (V_uint16 code) buf"
| "pack (Error h code) buf = packsimple RecError True (V_uint16 code) buf"
| "pack (Algorithm h algo) buf = packsimple RecAead True (V_uint16s algo) buf"

record ExchangeMsg =
  Records :: "Record list"

fun Pack_loop :: "Record list \<Rightarrow> byte list \<Rightarrow> error + byte list" where
  "Pack_loop [] buf = Inr buf"
| "Pack_loop (r # rs) buf =
     (case pack r buf of Inl err \<Rightarrow> Inl err | Inr buf' \<Rightarrow> Pack_loop rs buf')"

definition Pack :: "ExchangeMsg \<Rightarrow> error + byte list" where
  "Pack m = Pack_loop (Records m) []"

definition AddRecord :: "ExchangeMsg \<Rightarrow> Record \<Rightarrow> ExchangeMsg" where
  "AddRecord m rec = m\<lparr>Records := Records m @ [rec]\<rparr>"

text \<open>
  The message that \<open>ExchangeTCP\<close> assembles before it packs and sends it; the variables
  are declared with \<open>var\<close>, so the fields that are not assigned are zero.
\<close>

definition RecordHdr_zero :: RecordHdr where
  "RecordHdr_zero = \<lparr>Type = 0, BodyLen = 0\<rparr>"

definition ExchangeTCP_msg :: ExchangeMsg where
  "ExchangeTCP_msg =
     (let msg = \<lparr>Records = []\<rparr>;
          nextproto = NextProto RecordHdr_zero NTPv4;
          msg = AddRecord msg nextproto;
          algo = Algorithm RecordHdr_zero [AES_SIV_CMAC_256];
          msg = AddRecord msg algo;
          end = End RecordHdr_zero;
          msg = AddRecord msg end
      in msg)"

subsection \<open>Key export\<close>

text \<open>
  \<open>ExportKeys\<close> takes the connection state's \<open>ExportKeyingMaterial\<close>, a function of the
  label, the context and the length that returns a byte slice and an error, and the
  \<open>Data\<close> behind the pointer; it returns the error and the \<open>Data\<close> as the call leaves
  it. Each assignment \<open>data.S2cKey, err = ...\<close> stores the slice before \<open>err\<close> is
  looked at.
\<close>

definition ExportKeys ::
  "(string \<Rightarrow> byte list \<Rightarrow> nat \<Rightarrow> byte list \<times> error option) \<Rightarrow> Data \<Rightarrow> error option \<times> Data" where
  "ExportKeys ExportKeyingMaterial data =
     (let label = ''EXPORTER-network-time-security'';
          s2cContext = [0x00, 0x00, 0x00, 0x0f, 0x01];
          c2sContext = [0x00, 0x00, 0x00, 0x0f, 0x00];
          len = 32
      in case ExportKeyingMaterial label s2cContext len of
           (key, err) \<Rightarrow>
             (let data = data\<lparr>S2cKey := key\<rparr>
              in case err of
                   Some e \<Rightarrow> (Some e, data)
                 | None \<Rightarrow>
                     (case ExportKeyingMaterial label c2sContext len of
                        (key, err) \<Rightarrow>
                          (let data = data\<lparr>C2sKey := key\<rparr>
                           in case err of
                                Some e \<Rightarrow> (Some e, data)
                              | None \<Rightarrow> (None, data)))))"

subsection \<open>Accepting and connecting\<close>

text \<open>
  Of a TLS connection the code looks at the remote address and at the negotiated
  protocol of its connection state. A connection that a listener accepts is a TLS
  connection or some other \<open>net.Conn\<close>.
\<close>

record tls_Conn =
  RemoteAddr :: string
  NegotiatedProtocol :: string

datatype net_Conn = TLS_Conn tls_Conn | Other_Conn

text \<open>\<open>NewTCPListener\<close>, given what \<open>listener.Accept()\<close> returns.\<close>

definition NewTCPListener :: "error + net_Conn \<Rightarrow> error + tls_Conn" where
  "NewTCPListener accepted =
     (case accepted of
        Inl err \<Rightarrow> Inl (errorString ''Couldn't answer`'')
      | Inr conn \<Rightarrow>
          (case conn of
             Other_Conn \<Rightarrow> Inl (errorString ''could not convert to tls connection'')
           | TLS_Conn tlsConn \<Rightarrow> Inr tlsConn))"

text \<open>
  The TLS configuration, with the one field this file assigns; the other fields are the
  extension of the record.
\<close>

record tls_Config =
  NextProtos :: "string list"

definition Data_zero :: Data where
  "Data_zero = \<lparr>C2sKey = [], S2cKey = [], Server = [], Port = 0, Cookie = [], Algo = 0\<rparr>"






section \<open>Notions used to state the properties\<close>

subsection \<open>Record types\<close>

text \<open>
  The record type of a header's type field is the field with the critical bit cleared;
  the eight record types of the protocol are the known ones.
\<close>

definition type_code :: "uint16 \<Rightarrow> uint16" where
  "type_code ty = ty AND NOT (push_bit 15 1)"

definition known_type :: "uint16 \<Rightarrow> bool" where
  "known_type t =
     (t \<in> {RecEom, RecNextproto, RecError, RecWarning, RecAead, RecCookie, RecServer, RecPort})"

subsection \<open>Cookie records and their delivery\<close>

text \<open>
  The bytes of a Cookie record as \<open>Cookie.pack\<close> writes them, and a condition on the run
  of the decoder over the cookies \<open>cs\<close>, the next records of the stream: following the
  reader through the records, no \<open>reader.Read\<close> of a cookie's payload is short, each
  returns as many bytes as the payload has. This is a condition on the reads, not on the
  stream: a stream that holds every record completely can fail it.
\<close>

definition cookie_record :: "byte list \<Rightarrow> byte list" where
  "cookie_record c = PutUint16 RecCookie @ PutUint16 (of_nat (length c)) @ c"

fun cookie_reads_full :: "bufio_Reader \<Rightarrow> byte list list \<Rightarrow> bool" where
  "cookie_reads_full r [] = True"
| "cookie_reads_full r (c # cs) =
     (case binary_Read_RecordHdr r of
        (Inl err, r1) \<Rightarrow> False
      | (Inr h, r1) \<Rightarrow>
          (case bufio_Read r1 (length c) of
             ((bs, e), r2) \<Rightarrow> length bs = length c \<and> cookie_reads_full r2 cs))"

subsection \<open>Records on the wire\<close>

text \<open>
  The bytes that packing a record appends to the buffer, and the non-End records that
  the decode loop consumes whole with reads of exact length, whatever the transport
  does: NextProtocol, AEAD with one algorithm, Server and Port.
\<close>

definition wire :: "Record \<Rightarrow> byte list" where
  "wire rec = (case pack rec [] of Inl err \<Rightarrow> [] | Inr bs \<Rightarrow> bs)"

fun consumed_whole :: "Record \<Rightarrow> bool" where
  "consumed_whole (NextProto h n) = True"
| "consumed_whole (Algorithm h algo) = (length algo = 1)"
| "consumed_whole (Server_Record h addr critical) = (length addr < 65536)"
| "consumed_whole (Port_Record h port critical) = True"
| "consumed_whole rec = False"

subsection \<open>A failing key exporter\<close>

text \<open>
  A key exporter for tests: it exports a key of the requested length for the
  server-to-client context and fails for every other context, returning no bytes.
\<close>

definition exporter_second_fails :: "string \<Rightarrow> byte list \<Rightarrow> nat \<Rightarrow> byte list \<times> error option" where
  "exporter_second_fails label context len =
     (if context = [0x00, 0x00, 0x00, 0x0f, 0x01] then (replicate len 0x5A, None)
      else ([], Some (errorString ''export failed'')))"

section \<open>Lemmas\<close>

subsection \<open>\<open>io.ReadFull\<close> in terms of the pending bytes\<close>

lemma bufio_Read_err:
  "bufio_Read b n = ((bs, Some err), b') \<Longrightarrow> bs = [] \<and> err = io_EOF \<and> pending b = [] \<and> b' = b"
  by (auto simp: bufio_Read_def pending_def split: if_splits prod.splits dest: conn_Read_err)

lemma io_ReadFull_loop_enough:
  "k \<le> length (pending b) \<Longrightarrow>
     \<exists>b'. io_ReadFull_loop b k acc = ((acc @ take k (pending b), None), b') \<and>
          pending b' = drop k (pending b)"
proof (induction b k acc rule: io_ReadFull_loop.induct)
  case (1 b k acc)
  show ?case
  proof (cases "k = 0")
    case True
    then show ?thesis by simp
  next
    case False
    obtain bs1 e1 b1 where r: "bufio_Read b k = ((bs1, e1), b1)"
      by (metis prod.exhaust)
    have e1: "e1 = None"
    proof (cases e1)
      case (Some err)
      with r bufio_Read_err have "pending b = []" by blast
      with "1.prems" False show ?thesis by simp
    qed simp
    have p: "pending b = bs1 @ pending b1" and l: "length bs1 \<le> k"
      using bufio_Read_pending[OF r] bufio_Read_length[OF r] by auto
    with "1.prems" have "k - length bs1 \<le> length (pending b1)" by simp
    from "1.IH"[OF False r[symmetric] refl e1 this]
    obtain b' where "io_ReadFull_loop b1 (k - length bs1) (acc @ bs1) =
        (((acc @ bs1) @ take (k - length bs1) (pending b1), None), b')"
      and "pending b' = drop (k - length bs1) (pending b1)" by blast
    with False r e1 p l show ?thesis by (simp add: io_ReadFull_loop.simps [of b k acc])
  qed
qed

lemma io_ReadFull_loop_short:
  "length (pending b) < k \<Longrightarrow>
     \<exists>b'. io_ReadFull_loop b k acc = ((acc @ pending b, Some io_EOF), b') \<and> pending b' = []"
proof (induction b k acc rule: io_ReadFull_loop.induct)
  case (1 b k acc)
  from "1.prems" have k: "k \<noteq> 0" by simp
  obtain bs1 e1 b1 where r: "bufio_Read b k = ((bs1, e1), b1)"
    by (metis prod.exhaust)
  show ?case
  proof (cases e1)
    case (Some err)
    with r bufio_Read_err[of b k bs1 err b1] k show ?thesis
      by (simp add: io_ReadFull_loop.simps [of b k acc])
  next
    case None
    have p: "pending b = bs1 @ pending b1" and l: "length bs1 \<le> k"
      using bufio_Read_pending[OF r] bufio_Read_length[OF r] by auto
    with "1.prems" have "length (pending b1) < k - length bs1" by simp
    from "1.IH"[OF k r[symmetric] refl None this]
    obtain b' where "io_ReadFull_loop b1 (k - length bs1) (acc @ bs1) =
        (((acc @ bs1) @ pending b1, Some io_EOF), b')" and "pending b' = []" by blast
    with k r None p show ?thesis by (simp add: io_ReadFull_loop.simps [of b k acc])
  qed
qed

lemma io_ReadFull_enough:
  assumes "n \<le> length (pending b)"
  shows "\<exists>b'. io_ReadFull b n = ((take n (pending b), None), b') \<and> pending b' = drop n (pending b)"
proof -
  from io_ReadFull_loop_enough[OF assms, of "[]"] obtain b' where
    "io_ReadFull_loop b n [] = ((take n (pending b), None), b')" "pending b' = drop n (pending b)"
    by auto
  with assms show ?thesis by (simp add: io_ReadFull_def)
qed

lemma io_ReadFull_short:
  assumes "length (pending b) < n"
  shows "\<exists>b'. io_ReadFull b n =
           ((pending b, Some (if pending b = [] then io_EOF else io_ErrUnexpectedEOF)), b') \<and>
         pending b' = []"
proof -
  from io_ReadFull_loop_short[OF assms, of "[]"] obtain b' where
    "io_ReadFull_loop b n [] = ((pending b, Some io_EOF), b')" "pending b' = []"
    by auto
  with assms show ?thesis by (simp add: io_ReadFull_def)
qed

subsection \<open>Reading what was written\<close>

lemma BigEndian_Uint16_PutUint16_append [simp]: "BigEndian_Uint16 (PutUint16 v @ bs) = v"
  unfolding PutUint16_def
  by (simp, rule bit_word_eqI) (auto simp: bit_simps)

lemma BigEndian_Uint16_PutUint16 [simp]: "BigEndian_Uint16 (PutUint16 v) = v"
  using BigEndian_Uint16_PutUint16_append [of v "[]"] by simp

lemma length_PutUint16 [simp]: "length (PutUint16 v) = 2"
  by (simp add: PutUint16_def)

lemma hasBit_iff_bit: "hasBit n pos = bit n pos"
  unfolding hasBit_def Let_def
  by (simp only: word_greater_zero_iff bit_iff_and_push_bit_not_eq_0)

lemma clear_bit_eq_unset_bit: "n AND NOT (push_bit pos 1) = unset_bit pos (n :: uint16)"
  by (simp only: unset_bit_eq_and_not)

lemma unset_bit_idle: "\<not> bit n pos \<Longrightarrow> unset_bit pos n = (n :: uint16)"
  by (rule bit_word_eqI) (auto simp: bit_simps)

lemma binary_Read_RecordHdr_ok:
  assumes "pending r = PutUint16 ty @ PutUint16 len @ rest"
  shows "\<exists>r'. binary_Read_RecordHdr r = (Inr \<lparr>Type = ty, BodyLen = len\<rparr>, r') \<and> pending r' = rest"
proof -
  from assms have "4 \<le> length (pending r)" by simp
  from io_ReadFull_enough [OF this] assms show ?thesis
    by (auto simp: binary_Read_RecordHdr_def)
qed

lemma binary_Read_uint16_ok:
  assumes "pending r = a # b # rest"
  shows "\<exists>r'. binary_Read_uint16 r = (Inr (BigEndian_Uint16 [a, b]), r') \<and> pending r' = rest"
proof -
  from assms have "2 \<le> length (pending r)" by simp
  from io_ReadFull_enough [OF this] assms show ?thesis
    by (auto simp: binary_Read_uint16_def numeral_2_eq_2)
qed

lemma binary_Read_bytes_ok:
  assumes "pending r = bs @ rest"
  shows "\<exists>r'. binary_Read_bytes r (length bs) = (Inr bs, r') \<and> pending r' = rest"
proof -
  from assms have "length bs \<le> length (pending r)" by simp
  from io_ReadFull_enough [OF this] assms show ?thesis
    by (auto simp: binary_Read_bytes_def)
qed

lemma binary_Read_RecordHdr_short:
  assumes "length (pending r) < 4"
  shows "\<exists>r'. binary_Read_RecordHdr r =
           (Inl (if pending r = [] then io_EOF else io_ErrUnexpectedEOF), r')"
  using io_ReadFull_short [OF assms] by (auto simp: binary_Read_RecordHdr_def)

subsection \<open>One iteration of the decode loop\<close>

lemma Read_header_error:
  "binary_Read_RecordHdr r = (Inl err, r1) \<Longrightarrow> Read r d = (Some err, d, r1)"
  by (subst Read.simps) simp

lemma Read_unfold:
  assumes "binary_Read_RecordHdr r = (Inr \<lparr>Type = ty, BodyLen = len\<rparr>, r1)"
  shows "Read r d =
     (if type_code ty = RecEom then (None, d, r1)
      else if type_code ty = RecNextproto then
        (case binary_Read_uint16 r1 of
           (Inl err, r2) \<Rightarrow> (Some (errorString ''buffer overrun''), d, r2)
         | (Inr nextProto, r2) \<Rightarrow> Read r2 d)
      else if type_code ty = RecAead then
        (case binary_Read_uint16 r1 of
           (Inl err, r2) \<Rightarrow> (Some (errorString ''buffer overrun''), d, r2)
         | (Inr aead, r2) \<Rightarrow> Read r2 (d\<lparr>Algo := aead\<rparr>))
      else if type_code ty = RecCookie then
        (case bufio_Read r1 (unat len) of
           ((bs, Some err), r2) \<Rightarrow> (Some (errorString ''buffer overrun''), d, r2)
         | ((bs, None), r2) \<Rightarrow>
             Read r2 (d\<lparr>Cookie := Cookie d @ [bs @ replicate (unat len - length bs) 0]\<rparr>))
      else if type_code ty = RecServer then
        (case binary_Read_bytes r1 (unat len) of
           (Inl err, r2) \<Rightarrow> (Some (errorString ''buffer overrun''), d, r2)
         | (Inr address, r2) \<Rightarrow> Read r2 (d\<lparr>Server := string_of_bytes address\<rparr>))
      else if type_code ty = RecPort then
        (case binary_Read_uint16 r1 of
           (Inl err, r2) \<Rightarrow> (Some (errorString ''buffer overrun''), d, r2)
         | (Inr port, r2) \<Rightarrow> Read r2 (d\<lparr>Port := port\<rparr>))
      else if hasBit ty 15 then
        (Some (errorString (''unknown record type '' @ Itoa (unat (type_code ty)) @
                            '' with critical bit set'')), d, r1)
      else
        (case binary_Read_bytes r1 (unat len) of
           (Inl err, r2) \<Rightarrow> (Some (errorString ''buffer overrun''), d, r2)
         | (Inr unknownMsg, r2) \<Rightarrow> Read r2 d))"
  apply (subst Read.simps)
  apply (simp only: assms prod.case sum.case Let_def type_code_def [symmetric]
      RecordHdr.simps if_True if_False if_cancel)
  apply (simp cong: if_cong)
  done

section \<open>Properties\<close>

subsection \<open>Packing\<close>

lemma ExchangeTCP_msg_Records:
  "Records ExchangeTCP_msg =
     [NextProto RecordHdr_zero 0, Algorithm RecordHdr_zero [0x0f], End RecordHdr_zero]"
  by (simp add: ExchangeTCP_msg_def AddRecord_def NTPv4_def AES_SIV_CMAC_256_def)

text \<open>
  C7. Packing the message \<open>[NextProto 0, Algorithm [0x0f], End]\<close> gives the sixteen bytes
  \<open>80 01 00 02 00 00\<close>, \<open>80 04 00 02 00 0f\<close>, \<open>80 00 00 00\<close>: each record is its header
  (critical bit set, big-endian type and length) followed by its payload, in list
  order. The embedded headers of the three records do not matter.
\<close>

theorem Pack_exchange_message_bytes:
  "Pack \<lparr>Records = [NextProto h1 0, Algorithm h2 [0x0f], End h3]\<rparr> =
     Inr ([0x80, 0x01, 0x00, 0x02, 0x00, 0x00] @
          [0x80, 0x04, 0x00, 0x02, 0x00, 0x0f] @
          [0x80, 0x00, 0x00, 0x00])"
  by (simp add: Pack_def packsimple_def packheader_def RecordHdr_pack_def PutUint16_def
      setBit_def RecNextproto_def RecAead_def RecEom_def)

subsection \<open>Accepting and connecting\<close>

text \<open>
  C9. \<open>NewTCPListener\<close> returns every accepted TLS connection as it is: the result does
  not depend on the negotiated protocol of the connection, so a connection whose
  negotiated protocol is not \<open>ntske/1\<close> is returned as well.
\<close>

theorem NewTCPListener_returns_any_tls_Conn:
  "NewTCPListener (Inr (TLS_Conn tlsConn)) = Inr tlsConn"
  by (simp add: NewTCPListener_def)


subsection \<open>Key export\<close>

text \<open>
  C2, as the code behaves. \<open>ExportKeys\<close> stores the result of the server-to-client
  export in \<open>S2cKey\<close> and returns its error if it has one, without touching \<open>C2sKey\<close>;
  otherwise it stores the result of the client-to-server export in \<open>C2sKey\<close> and returns
  the error of that export. So when the first export succeeds and the second fails, the
  error is returned and \<open>S2cKey\<close> holds the key that was exported.
\<close>

theorem ExportKeys_outcome:
  assumes "ExportKeyingMaterial ''EXPORTER-network-time-security'' [0x00, 0x00, 0x00, 0x0f, 0x01] 32 = (k1, e1)"
    and "ExportKeyingMaterial ''EXPORTER-network-time-security'' [0x00, 0x00, 0x00, 0x0f, 0x00] 32 = (k2, e2)"
  shows "ExportKeys ExportKeyingMaterial data =
           (case e1 of
              Some e \<Rightarrow> (Some e, data\<lparr>S2cKey := k1\<rparr>)
            | None \<Rightarrow> (e2, data\<lparr>S2cKey := k1, C2sKey := k2\<rparr>))"
  using assms by (cases e1; cases e2) (simp_all add: ExportKeys_def)

theorem ExportKeys_outcome_witness:
  "ExportKeys exporter_second_fails Data_zero =
     (Some (errorString ''export failed''), Data_zero\<lparr>S2cKey := replicate 32 0x5A, C2sKey := []\<rparr>)"
  using ExportKeys_outcome [of exporter_second_fails "replicate 32 0x5A" None "[]"
      "Some (errorString ''export failed'')" Data_zero]
  by (simp add: exporter_second_fails_def)

text \<open>
  C2 as stated fails: with an exporter whose first export succeeds and whose second
  fails, \<open>ExportKeys\<close> returns the error and leaves a key in \<open>S2cKey\<close>.
\<close>

theorem ExportKeys_partial_key_counterexample:
  "fst (ExportKeys exporter_second_fails Data_zero) = Some (errorString ''export failed'') \<and>
   S2cKey (snd (ExportKeys exporter_second_fails Data_zero)) = replicate 32 0x5A \<and>
   S2cKey (snd (ExportKeys exporter_second_fails Data_zero)) \<noteq> []"
  by (simp add: ExportKeys_def exporter_second_fails_def Data_zero_def)

subsection \<open>Unknown record types\<close>

lemma EOM_bytes: "[0x80, 0, 0, 0] = PutUint16 0x8000 @ PutUint16 0"
  by (simp add: PutUint16_def)

lemma not_known_type:
  "\<not> known_type t \<Longrightarrow>
     t \<noteq> RecEom \<and> t \<noteq> RecNextproto \<and> t \<noteq> RecAead \<and> t \<noteq> RecCookie \<and> t \<noteq> RecServer \<and> t \<noteq> RecPort"
  by (auto simp: known_type_def)

text \<open>
  C3. When the first record of the stream has the critical bit set and a type code that
  is none of the eight known ones, \<open>Read\<close> returns the error that names this type code,
  whatever body length the header declares and whatever follows it. The \<open>Data\<close> is
  untouched, and the reader is left as the read of the four header bytes left it: every
  byte after the header is still to be read.
\<close>

theorem Read_unknown_critical_record:
  assumes "pending r = PutUint16 ty @ PutUint16 len @ rest"
    and "hasBit ty 15"
    and "\<not> known_type (type_code ty)"
  shows "Read r d =
           (Some (errorString (''unknown record type '' @ Itoa (unat (type_code ty)) @
                               '' with critical bit set'')), d, snd (binary_Read_RecordHdr r)) \<and>
         pending (snd (binary_Read_RecordHdr r)) = rest"
proof -
  from binary_Read_RecordHdr_ok [OF assms(1)] obtain r1 where
    h: "binary_Read_RecordHdr r = (Inr \<lparr>Type = ty, BodyLen = len\<rparr>, r1)" and p: "pending r1 = rest"
    by blast
  from not_known_type [OF assms(3)] assms(2) p h show ?thesis
    by (simp add: Read_unfold [OF h])
qed

text \<open>
  A critical record of type 9 that declares sixteen bytes of body, of which two are
  there.
\<close>

theorem Read_unknown_critical_record_witness:
  "Read (NewReader [[0x80, 0x09, 0x00, 0x10, 0x01, 0x02]]) Data_zero =
     (Some (errorString ''unknown record type 9 with critical bit set''), Data_zero,
      snd (binary_Read_RecordHdr (NewReader [[0x80, 0x09, 0x00, 0x10, 0x01, 0x02]]))) \<and>
   pending (snd (binary_Read_RecordHdr (NewReader [[0x80, 0x09, 0x00, 0x10, 0x01, 0x02]]))) =
     [0x01, 0x02]"
proof -
  have "Itoa 9 = ''9''"
    by code_simp
  with Read_unknown_critical_record [of "NewReader [[0x80, 0x09, 0x00, 0x10, 0x01, 0x02]]"
      "0x8009" "0x0010" "[0x01, 0x02]" Data_zero]
  show ?thesis
    by (simp add: NewReader_def pending_def PutUint16_def hasBit_def type_code_def known_type_def
        RecEom_def RecNextproto_def RecError_def RecWarning_def RecAead_def RecCookie_def
        RecServer_def RecPort_def)
qed

text \<open>
  C4. A record with the critical bit clear and a type code that is none of the eight
  known ones, with a payload of exactly the declared length, followed by the
  End-of-Message record \<open>80 00 00 00\<close>: \<open>Read\<close> succeeds and returns the \<open>Data\<close> it
  was given, with every field unchanged. This holds however the bytes are split into
  transport reads.
\<close>

theorem Read_unknown_noncritical_record_skipped:
  assumes "pending r =
             PutUint16 ty @ PutUint16 (of_nat (length payload)) @ payload @ [0x80, 0, 0, 0] @ rest"
    and "length payload < 65536"
    and "\<not> hasBit ty 15"
    and "\<not> known_type (type_code ty)"
  shows "\<exists>r'. Read r d = (None, d, r') \<and> pending r' = rest"
proof -
  have len: "unat (of_nat (length payload) :: uint16) = length payload"
    using assms(2) by (simp add: unat_of_nat)
  from binary_Read_RecordHdr_ok [OF assms(1)] obtain r1 where
    h: "binary_Read_RecordHdr r =
          (Inr \<lparr>Type = ty, BodyLen = of_nat (length payload)\<rparr>, r1)"
    and p1: "pending r1 = payload @ [0x80, 0, 0, 0] @ rest"
    by blast
  from binary_Read_bytes_ok [OF p1] obtain r2 where
    b: "binary_Read_bytes r1 (length payload) = (Inr payload, r2)"
    and p2: "pending r2 = [0x80, 0, 0, 0] @ rest"
    by blast
  from p2 have "pending r2 = PutUint16 0x8000 @ PutUint16 0 @ rest"
    by (simp add: PutUint16_def)
  from binary_Read_RecordHdr_ok [OF this] obtain r3 where
    e: "binary_Read_RecordHdr r2 = (Inr \<lparr>Type = 0x8000, BodyLen = 0\<rparr>, r3)"
    and p3: "pending r3 = rest"
    by blast
  have "Read r2 d = (None, d, r3)"
    by (simp add: Read_unfold [OF e] type_code_def RecEom_def)
  with not_known_type [OF assms(4)] assms(3) b len p3 show ?thesis
    by (simp add: Read_unfold [OF h])
qed

theorem Read_unknown_noncritical_record_skipped_witness:
  "\<exists>r'. Read (NewReader [[0x00, 0x09, 0x00, 0x03, 0x0A], [0x0B, 0x0C, 0x80, 0x00], [0x00, 0x00]])
           (Data_zero\<lparr>Server := ''ntp.example'', Port := 123\<rparr>) =
          (None, Data_zero\<lparr>Server := ''ntp.example'', Port := 123\<rparr>, r') \<and>
        pending r' = []"
  using Read_unknown_noncritical_record_skipped
    [of "NewReader [[0x00, 0x09, 0x00, 0x03, 0x0A], [0x0B, 0x0C, 0x80, 0x00], [0x00, 0x00]]"
      "0x0009" "[0x0A, 0x0B, 0x0C]" "[]" "Data_zero\<lparr>Server := ''ntp.example'', Port := 123\<rparr>"]
  by (simp add: NewReader_def pending_def PutUint16_def hasBit_def type_code_def known_type_def
      RecEom_def RecNextproto_def RecError_def RecWarning_def RecAead_def RecCookie_def
      RecServer_def RecPort_def)

subsection \<open>Payload lengths\<close>

text \<open>
  C1 fails on the code. The header of a Cookie record declares five bytes; the transport
  delivers one of them together with the header, and the End-of-Message record in its
  next read. \<open>reader.Read\<close> returns the one byte that is there, the cookie with its four
  unfilled bytes is appended, and \<open>Read\<close> succeeds. When nothing follows the first read,
  the partly filled cookie is appended all the same and the error is the \<open>io.EOF\<close> of the
  next header.
\<close>

theorem Read_short_cookie_appended:
  "Read (NewReader [[0x00, 0x05, 0x00, 0x05, 0xAA], [0x80, 0x00, 0x00, 0x00]]) Data_zero =
     (None, Data_zero\<lparr>Cookie := [[0xAA, 0, 0, 0, 0]]\<rparr>, \<lparr>buffered = [], rd = []\<rparr>) \<and>
   Read (NewReader [[0x00, 0x05, 0x00, 0x04, 0xAA, 0xBB]]) Data_zero =
     (Some io_EOF, Data_zero\<lparr>Cookie := [[0xAA, 0xBB, 0, 0]]\<rparr>, \<lparr>buffered = [], rd = []\<rparr>)"
  by code_simp

text \<open>
  C5 as stated fails: a Port record that declares a body of four bytes is not rejected.
  \<open>Read\<close> takes two bytes as the port, decodes the next header from the other two bytes
  of the body and the two bytes after them, and here returns success.
\<close>

theorem Read_Port_BodyLen_4_counterexample:
  "Read (NewReader [[0x00, 0x07, 0x00, 0x04, 0x10, 0x1B, 0x00, 0x00, 0x80, 0x00, 0x00, 0x00]])
        Data_zero =
     (None, Data_zero\<lparr>Port := 0x101B\<rparr>, \<lparr>buffered = [0x00, 0x00], rd = []\<rparr>)"
  by code_simp

text \<open>
  C5 as the code behaves. For a NextProtocol, AEAD or Port record, with or without the
  critical bit and whatever body length the header declares, \<open>Read\<close> consumes the two
  bytes after the header, stores them as \<open>Algo\<close> (AEAD) or \<open>Port\<close> (Port) or drops them
  (NextProtocol), and goes on with the bytes that follow; the declared length is not
  looked at.
\<close>

theorem Read_fixed_size_record_reads_two_bytes:
  assumes "pending r = PutUint16 ty @ PutUint16 len @ a # b # rest"
    and "type_code ty \<in> {RecNextproto, RecAead, RecPort}"
  shows "\<exists>r'. pending r' = rest \<and>
              Read r d =
                Read r' (if type_code ty = RecAead then d\<lparr>Algo := BigEndian_Uint16 [a, b]\<rparr>
                         else if type_code ty = RecPort then d\<lparr>Port := BigEndian_Uint16 [a, b]\<rparr>
                         else d)"
proof -
  from binary_Read_RecordHdr_ok [of r ty len "a # b # rest"] assms(1) obtain r1 where
    h: "binary_Read_RecordHdr r = (Inr \<lparr>Type = ty, BodyLen = len\<rparr>, r1)"
    and p1: "pending r1 = a # b # rest"
    by auto
  from binary_Read_uint16_ok [OF p1] obtain r2 where
    v: "binary_Read_uint16 r1 = (Inr (BigEndian_Uint16 [a, b]), r2)" and p2: "pending r2 = rest"
    by blast
  from assms(2) v have
    "Read r d =
       Read r2 (if type_code ty = RecAead then d\<lparr>Algo := BigEndian_Uint16 [a, b]\<rparr>
                else if type_code ty = RecPort then d\<lparr>Port := BigEndian_Uint16 [a, b]\<rparr>
                else d)"
    by (auto simp: Read_unfold [OF h] RecEom_def RecNextproto_def RecAead_def RecPort_def
        RecCookie_def RecServer_def)
  with p2 show ?thesis by blast
qed

theorem Read_fixed_size_record_reads_two_bytes_witness:
  "\<exists>r'. pending r' = [0x00, 0x00, 0x80, 0x00, 0x00, 0x00] \<and>
        Read (NewReader [[0x00, 0x07, 0x00, 0x04, 0x10, 0x1B, 0x00, 0x00, 0x80, 0x00, 0x00, 0x00]])
             Data_zero =
          Read r' (Data_zero\<lparr>Port := 0x101B\<rparr>)"
  using Read_fixed_size_record_reads_two_bytes
    [of "NewReader [[0x00, 0x07, 0x00, 0x04, 0x10, 0x1B, 0x00, 0x00, 0x80, 0x00, 0x00, 0x00]]"
      "0x0007" "0x0004" "0x10" "0x1B" "[0x00, 0x00, 0x80, 0x00, 0x00, 0x00]" Data_zero]
  by (simp add: NewReader_def pending_def PutUint16_def type_code_def
      RecNextproto_def RecAead_def RecPort_def)

subsection \<open>Cookies\<close>

lemma pack_Cookie_Record: "pack (Cookie_Record h c) buf = Inr (buf @ cookie_record c)"
  by (simp add: packsimple_def packheader_def RecordHdr_pack_def cookie_record_def)

lemma bufio_Read_buffered:
  assumes "n \<le> length (buffered r)"
  shows "bufio_Read r n = ((take n (buffered r), None), r\<lparr>buffered := drop n (buffered r)\<rparr>)"
  using assms by (auto simp: bufio_Read_def)

lemma io_ReadFull_buffered:
  assumes "n \<le> length (buffered r)"
  shows "io_ReadFull r n = ((take n (buffered r), None), r\<lparr>buffered := drop n (buffered r)\<rparr>)"
proof (cases "n = 0")
  case True
  then show ?thesis by (simp add: io_ReadFull_def)
next
  case False
  with assms bufio_Read_buffered [OF assms] show ?thesis
    by (simp add: io_ReadFull_def io_ReadFull_loop.simps [of r n "[]"])
qed

lemma io_ReadFull_first_read:
  assumes "buffered r = []" and "rd r = chunk # later"
    and "0 < n" and "n \<le> length chunk" and "length chunk \<le> defaultBufSize"
  shows "io_ReadFull r n = ((take n chunk, None), r\<lparr>buffered := drop n chunk, rd := later\<rparr>)"
proof -
  from assms have "bufio_Read r n = ((take n chunk, None), r\<lparr>buffered := drop n chunk, rd := later\<rparr>)"
    by (auto simp: bufio_Read_def)
  with assms show ?thesis
    by (simp add: io_ReadFull_def io_ReadFull_loop.simps [of r n "[]"])
qed

lemma cookie_reads_full_buffered:
  "buffered r = concat (map cookie_record cs) @ tail \<Longrightarrow> cookie_reads_full r cs"
proof (induction cs arbitrary: r)
  case Nil
  show ?case by simp
next
  case (Cons c cs)
  let ?rest = "concat (map cookie_record cs) @ tail"
  from Cons.prems have b: "buffered r = PutUint16 RecCookie @ PutUint16 (of_nat (length c)) @ c @ ?rest"
    by (simp add: cookie_record_def [of c])
  then have "4 \<le> length (buffered r)" by simp
  from io_ReadFull_buffered [OF this] b have
    h: "binary_Read_RecordHdr r =
          (Inr \<lparr>Type = RecCookie, BodyLen = of_nat (length c)\<rparr>, r\<lparr>buffered := c @ ?rest\<rparr>)"
    by (simp add: binary_Read_RecordHdr_def)
  have "bufio_Read (r\<lparr>buffered := c @ ?rest\<rparr>) (length c) =
          ((c, None), r\<lparr>buffered := ?rest\<rparr>)"
    using bufio_Read_buffered [of "length c" "r\<lparr>buffered := c @ ?rest\<rparr>"] by simp
  with h Cons.IH [of "r\<lparr>buffered := ?rest\<rparr>"] show ?case
    by simp
qed

text \<open>
  When the cookie records arrive in one transport read that fits the buffer, no read of
  a cookie payload is short.
\<close>

lemma cookie_reads_full_one_read:
  assumes "chunk = concat (map cookie_record cs) @ tail"
    and "length chunk \<le> defaultBufSize"
  shows "cookie_reads_full (NewReader (chunk # later)) cs"
proof (cases cs)
  case Nil
  then show ?thesis by simp
next
  case (Cons c cs')
  let ?rest = "concat (map cookie_record cs') @ tail"
  from assms(1) Cons have c: "chunk = PutUint16 RecCookie @ PutUint16 (of_nat (length c)) @ c @ ?rest"
    by (simp add: cookie_record_def [of c])
  then have "4 \<le> length chunk" by simp
  with io_ReadFull_first_read [of "NewReader (chunk # later)" chunk later 4] assms(2) c have
    h: "binary_Read_RecordHdr (NewReader (chunk # later)) =
          (Inr \<lparr>Type = RecCookie, BodyLen = of_nat (length c)\<rparr>,
           \<lparr>buffered = c @ ?rest, rd = later\<rparr>)"
    by (simp add: binary_Read_RecordHdr_def NewReader_def)
  have "bufio_Read \<lparr>buffered = c @ ?rest, rd = later\<rparr> (length c) =
          ((c, None), \<lparr>buffered = ?rest, rd = later\<rparr>)"
    using bufio_Read_buffered [of "length c" "\<lparr>buffered = c @ ?rest, rd = later\<rparr>"] by simp
  with h Cons cookie_reads_full_buffered [of "\<lparr>buffered = ?rest, rd = later\<rparr>" cs' tail]
  show ?thesis by simp
qed

lemma Read_one_cookie:
  assumes p: "pending r = cookie_record c @ rest"
    and l: "length c < 65536"
    and f: "cookie_reads_full r (c # cs)"
  shows "\<exists>r2. pending r2 = rest \<and> cookie_reads_full r2 cs \<and>
              Read r d = Read r2 (d\<lparr>Cookie := Cookie d @ [c]\<rparr>)"
proof -
  have len: "unat (of_nat (length c) :: uint16) = length c"
    using l by (simp add: unat_of_nat)
  from p have "pending r = PutUint16 RecCookie @ PutUint16 (of_nat (length c)) @ c @ rest"
    by (simp add: cookie_record_def)
  from binary_Read_RecordHdr_ok [OF this] obtain r1 where
    h: "binary_Read_RecordHdr r = (Inr \<lparr>Type = RecCookie, BodyLen = of_nat (length c)\<rparr>, r1)"
    and p1: "pending r1 = c @ rest"
    by blast
  obtain bs e r2 where b: "bufio_Read r1 (length c) = ((bs, e), r2)"
    by (metis prod.exhaust)
  with f h have lb: "length bs = length c" and f2: "cookie_reads_full r2 cs"
    by simp_all
  from bufio_Read_pending [OF b] p1 lb have bs: "bs = c" and p2: "pending r2 = rest"
    by (simp_all add: append_eq_append_conv)
  have e: "e = None"
  proof (cases e)
    case (Some err)
    with b bufio_Read_err have "bs = []" "pending r1 = []" by blast+
    with bs b show ?thesis by (simp add: bufio_Read_def)
  qed simp
  have "type_code RecCookie = RecCookie"
    by (simp add: type_code_def RecCookie_def)
  with b bs e len have "Read r d = Read r2 (d\<lparr>Cookie := Cookie d @ [c]\<rparr>)"
    by (simp add: Read_unfold [OF h] RecEom_def RecNextproto_def RecAead_def RecCookie_def)
  with p2 f2 show ?thesis by blast
qed

text \<open>
  What the Cookie case does achieve: on a stream of \<open>N\<close> Cookie records followed by the
  End-of-Message record, if no read of a cookie payload is short, \<open>Read\<close> succeeds and
  has appended the \<open>N\<close> payloads to the cookie sequence, in the order of the records and
  each byte for byte, duplicates and empty payloads included.
\<close>

lemma Read_cookies_accumulate_when_reads_full:
  assumes "pending r = concat (map cookie_record cs) @ [0x80, 0, 0, 0] @ rest"
    and "\<forall>c \<in> set cs. length c < 65536"
    and "cookie_reads_full r cs"
  shows "\<exists>r'. Read r d = (None, d\<lparr>Cookie := Cookie d @ cs\<rparr>, r') \<and> pending r' = rest"
  using assms
proof (induction cs arbitrary: r d)
  case Nil
  then have "pending r = PutUint16 0x8000 @ PutUint16 0 @ rest"
    by (simp add: PutUint16_def)
  from binary_Read_RecordHdr_ok [OF this] obtain r1 where
    e: "binary_Read_RecordHdr r = (Inr \<lparr>Type = 0x8000, BodyLen = 0\<rparr>, r1)"
    and p1: "pending r1 = rest"
    by blast
  have "Read r d = (None, d, r1)"
    by (simp add: Read_unfold [OF e] type_code_def RecEom_def)
  with p1 show ?case by simp
next
  case (Cons c cs)
  from Cons.prems have p: "pending r = cookie_record c @ (concat (map cookie_record cs) @ [0x80, 0, 0, 0] @ rest)"
    and l: "length c < 65536" and ls: "\<forall>c \<in> set cs. length c < 65536"
    by simp_all
  from Read_one_cookie [OF p l Cons.prems(3)] obtain r2 where
    p2: "pending r2 = concat (map cookie_record cs) @ [0x80, 0, 0, 0] @ rest"
    and f2: "cookie_reads_full r2 cs"
    and s: "Read r d = Read r2 (d\<lparr>Cookie := Cookie d @ [c]\<rparr>)"
    by blast
  from Cons.IH [OF p2 ls f2, of "d\<lparr>Cookie := Cookie d @ [c]\<rparr>"] s show ?case
    by simp
qed

text \<open>The cookies \<open>AA BB\<close>, empty and \<open>AA BB\<close> again, spread over three transport reads.\<close>

lemma Read_cookies_accumulate_example:
  "\<exists>r'. Read (NewReader [[0x00, 0x05, 0x00, 0x02, 0xAA, 0xBB, 0x00, 0x05, 0x00, 0x00],
                          [0x00, 0x05, 0x00, 0x02], [0xAA, 0xBB, 0x80, 0x00, 0x00, 0x00]])
             Data_zero =
          (None, Data_zero\<lparr>Cookie := [[0xAA, 0xBB], [], [0xAA, 0xBB]]\<rparr>, r') \<and>
        pending r' = []"
proof -
  have "cookie_reads_full
          (NewReader [[0x00, 0x05, 0x00, 0x02, 0xAA, 0xBB, 0x00, 0x05, 0x00, 0x00],
                      [0x00, 0x05, 0x00, 0x02], [0xAA, 0xBB, 0x80, 0x00, 0x00, 0x00]])
          [[0xAA, 0xBB], [], [0xAA, 0xBB]]"
    by code_simp
  with Read_cookies_accumulate_when_reads_full
    [of "NewReader [[0x00, 0x05, 0x00, 0x02, 0xAA, 0xBB, 0x00, 0x05, 0x00, 0x00],
                    [0x00, 0x05, 0x00, 0x02], [0xAA, 0xBB, 0x80, 0x00, 0x00, 0x00]]"
      "[[0xAA, 0xBB], [], [0xAA, 0xBB]]" "[]" Data_zero]
  show ?thesis
    by (simp add: NewReader_def pending_def cookie_record_def PutUint16_def RecCookie_def
        Data_zero_def)
qed

lemma Itoa_15232: "Itoa 15232 = ''15232''"
proof -
  have "char_of (49 :: nat) = CHR ''1''" "char_of (50 :: nat) = CHR ''2''"
    "char_of (51 :: nat) = CHR ''3''" "char_of (53 :: nat) = CHR ''5''"
    by code_simp+
  then show ?thesis
    by (simp add: Itoa.simps)
qed

lemma Read_split_cookie_rejected:
  "Read (NewReader [[0x00, 0x05, 0x00, 0x02, 0xAA], [0xBB, 0x80, 0x00, 0x00, 0x00]]) Data_zero =
     (Some (errorString ''unknown record type 15232 with critical bit set''),
      Data_zero\<lparr>Cookie := [[0xAA, 0x00]]\<rparr>, \<lparr>buffered = [0x00], rd = []\<rparr>)"
proof -
  have h1: "binary_Read_RecordHdr
              (NewReader [[0x00, 0x05, 0x00, 0x02, 0xAA], [0xBB, 0x80, 0x00, 0x00, 0x00]]) =
            (Inr \<lparr>Type = 5, BodyLen = 2\<rparr>,
             \<lparr>buffered = [0xAA], rd = [[0xBB, 0x80, 0x00, 0x00, 0x00]]\<rparr>)"
    by code_simp
  have c: "bufio_Read \<lparr>buffered = [0xAA], rd = [[0xBB, 0x80, 0x00, 0x00, 0x00]]\<rparr> 2 =
           (([0xAA], None), \<lparr>buffered = [], rd = [[0xBB, 0x80, 0x00, 0x00, 0x00]]\<rparr>)"
    by code_simp
  have h2: "binary_Read_RecordHdr \<lparr>buffered = [], rd = [[0xBB, 0x80, 0x00, 0x00, 0x00]]\<rparr> =
            (Inr \<lparr>Type = 0xBB80, BodyLen = 0\<rparr>, \<lparr>buffered = [0x00], rd = []\<rparr>)"
    by code_simp
  have t: "type_code 0xBB80 = 15232" "hasBit 0xBB80 15"
    by (simp_all add: type_code_def hasBit_def)
  have "Read \<lparr>buffered = [], rd = [[0xBB, 0x80, 0x00, 0x00, 0x00]]\<rparr>
          (Data_zero\<lparr>Cookie := [[0xAA, 0x00]]\<rparr>) =
        (Some (errorString ''unknown record type 15232 with critical bit set''),
         Data_zero\<lparr>Cookie := [[0xAA, 0x00]]\<rparr>, \<lparr>buffered = [0x00], rd = []\<rparr>)"
    by (simp add: Read_unfold [OF h2] t Itoa_15232 RecEom_def RecNextproto_def RecAead_def
        RecCookie_def RecServer_def RecPort_def)
  with c show ?thesis
    by (simp add: Read_unfold [OF h1] type_code_def RecEom_def RecNextproto_def RecAead_def
        RecCookie_def Data_zero_def)
qed

lemma Read_split_cookie_accepted:
  "Read (NewReader [[0x00, 0x05, 0x00, 0x06, 0xAA, 0xBB],
                    [0x80, 0x00, 0x00, 0x00, 0x80, 0x00, 0x00, 0x00]]) Data_zero =
     (None, Data_zero\<lparr>Cookie := [[0xAA, 0xBB, 0, 0, 0, 0]]\<rparr>,
      \<lparr>buffered = [0x80, 0x00, 0x00, 0x00], rd = []\<rparr>)"
  by code_simp

text \<open>
  C8 fails on the code. The claim is that a stream of \<open>N\<close> Cookie records, each present
  in full, followed by the End-of-Message record, decodes to exactly the \<open>N\<close> payloads
  in order. \<open>Read\<close> fills a cookie with one \<open>reader.Read\<close>, which returns what the reader
  has at hand, so a complete record whose payload the transport delivers in two reads is
  not decoded to its payload. Two streams of one complete Cookie record and the
  End-of-Message record:
  \<^item> the record \<open>00 05 00 02 AA BB\<close>, the transport splitting after \<open>AA\<close>: the cookie
    appended is \<open>AA 00\<close>, the byte \<open>BB\<close> and the End-of-Message record are decoded as a
    header, and \<open>Read\<close> fails on it as an unknown critical record;
  \<^item> the record \<open>00 05 00 06 AA BB 80 00 00 00\<close>, the transport splitting after \<open>BB\<close>:
    the cookie appended is \<open>AA BB 00 00 00 00\<close>, the last four bytes of the payload are
    decoded as the End-of-Message record, and \<open>Read\<close> returns success.
\<close>

theorem Read_complete_cookie_split_by_transport:
  "[[0x00, 0x05, 0x00, 0x02, 0xAA], [0xBB, 0x80, 0x00, 0x00, 0x00]] =
     [take 5 (cookie_record [0xAA, 0xBB] @ [0x80, 0, 0, 0]),
      drop 5 (cookie_record [0xAA, 0xBB] @ [0x80, 0, 0, 0])] \<and>
   Read (NewReader [[0x00, 0x05, 0x00, 0x02, 0xAA], [0xBB, 0x80, 0x00, 0x00, 0x00]]) Data_zero =
     (Some (errorString ''unknown record type 15232 with critical bit set''),
      Data_zero\<lparr>Cookie := [[0xAA, 0x00]]\<rparr>, \<lparr>buffered = [0x00], rd = []\<rparr>) \<and>
   [[0x00, 0x05, 0x00, 0x06, 0xAA, 0xBB], [0x80, 0x00, 0x00, 0x00, 0x80, 0x00, 0x00, 0x00]] =
     [take 6 (cookie_record [0xAA, 0xBB, 0x80, 0, 0, 0] @ [0x80, 0, 0, 0]),
      drop 6 (cookie_record [0xAA, 0xBB, 0x80, 0, 0, 0] @ [0x80, 0, 0, 0])] \<and>
   Read (NewReader [[0x00, 0x05, 0x00, 0x06, 0xAA, 0xBB],
                    [0x80, 0x00, 0x00, 0x00, 0x80, 0x00, 0x00, 0x00]]) Data_zero =
     (None, Data_zero\<lparr>Cookie := [[0xAA, 0xBB, 0, 0, 0, 0]]\<rparr>,
      \<lparr>buffered = [0x80, 0x00, 0x00, 0x00], rd = []\<rparr>)"
  using Read_split_cookie_rejected Read_split_cookie_accepted
  by (simp add: cookie_record_def PutUint16_def RecCookie_def)

subsection \<open>Streams without an End-of-Message record\<close>

lemma binary_Read_RecordHdr_bytes:
  assumes "binary_Read_RecordHdr r = (Inr hdr, r1)"
  shows "\<exists>hb. pending r = hb @ pending r1 \<and> length hb = 4 \<and> Type hdr = BigEndian_Uint16 hb"
proof -
  from assms obtain hb where f: "io_ReadFull r 4 = ((hb, None), r1)"
    and t: "Type hdr = BigEndian_Uint16 (take 2 hb)"
    by (auto simp: binary_Read_RecordHdr_def split: prod.splits option.splits)
  from io_ReadFull_ok [OF f] have p: "pending r = hb @ pending r1" and l: "length hb = 4"
    by simp_all
  from l obtain b0 b1 b2 b3 where "hb = [b0, b1, b2, b3]"
    by (auto simp: length_Suc_conv numeral_eq_Suc)
  with t have "Type hdr = BigEndian_Uint16 hb"
    by simp
  with p l show ?thesis by blast
qed

lemma binary_Read_uint16_consumes:
  "binary_Read_uint16 r = (x, r') \<Longrightarrow> \<exists>mid. pending r = mid @ pending r'"
  by (auto simp: binary_Read_uint16_def split: prod.splits option.splits
      dest!: io_ReadFull_pending)

lemma binary_Read_bytes_consumes:
  "binary_Read_bytes r n = (x, r') \<Longrightarrow> \<exists>mid. pending r = mid @ pending r'"
  by (auto simp: binary_Read_bytes_def split: prod.splits option.splits
      dest!: io_ReadFull_pending)

lemma bufio_Read_consumes:
  "bufio_Read r n = (x, r') \<Longrightarrow> \<exists>mid. pending r = mid @ pending r'"
  by (cases x) (auto dest!: bufio_Read_pending)

lemma Read_success_step:
  assumes s: "Read r d = (None, d', r')"
    and h: "binary_Read_RecordHdr r = (Inr \<lparr>Type = ty, BodyLen = len\<rparr>, r1)"
    and n: "type_code ty \<noteq> RecEom"
  shows "\<exists>r2 d2 mid. pending r1 = mid @ pending r2 \<and> Read r2 d2 = (None, d', r')"
  using s n
  apply (simp only: Read_unfold [OF h] if_False)
  apply (auto split: if_splits prod.splits sum.splits option.splits)
       apply (blast dest: binary_Read_uint16_consumes binary_Read_bytes_consumes
      bufio_Read_consumes)+
  done

lemma Read_success_at_End:
  "Read r d = (None, d', r') \<Longrightarrow>
     \<exists>pre hb. pending r = pre @ hb @ pending r' \<and> length hb = 4 \<and>
              type_code (BigEndian_Uint16 hb) = RecEom"
proof (induction "length (pending r)" arbitrary: r d rule: less_induct)
  case less
  obtain x r1 where hx: "binary_Read_RecordHdr r = (x, r1)"
    by (metis prod.exhaust)
  show ?case
  proof (cases x)
    case (Inl err)
    with hx less.prems Read_header_error [of r err r1 d] show ?thesis by simp
  next
    case (Inr hdr)
    obtain ty len where hdr: "hdr = \<lparr>Type = ty, BodyLen = len\<rparr>"
      by (cases hdr) simp
    with hx Inr have h: "binary_Read_RecordHdr r = (Inr \<lparr>Type = ty, BodyLen = len\<rparr>, r1)"
      by simp
    from binary_Read_RecordHdr_bytes [OF h] obtain hb where
      p: "pending r = hb @ pending r1" and l: "length hb = 4" and t: "ty = BigEndian_Uint16 hb"
      by auto
    show ?thesis
    proof (cases "type_code ty = RecEom")
      case True
      with less.prems have "r' = r1"
        by (simp add: Read_unfold [OF h])
      with p l t True have "pending r = [] @ hb @ pending r' \<and> length hb = 4 \<and>
          type_code (BigEndian_Uint16 hb) = RecEom"
        by simp
      then show ?thesis by blast
    next
      case False
      from Read_success_step [OF less.prems h False] obtain r2 d2 mid where
        m: "pending r1 = mid @ pending r2" and s2: "Read r2 d2 = (None, d', r')"
        by blast
      from p l m have "length (pending r2) < length (pending r)"
        by simp
      from less.hyps [OF this s2] obtain pre hb2 where
        "pending r2 = pre @ hb2 @ pending r'" "length hb2 = 4"
        "type_code (BigEndian_Uint16 hb2) = RecEom"
        by blast
      with p m have "pending r = (hb @ mid @ pre) @ hb2 @ pending r' \<and> length hb2 = 4 \<and>
          type_code (BigEndian_Uint16 hb2) = RecEom"
        by simp
      then show ?thesis by blast
    qed
  qed
qed

lemma packheader_bytes:
  "packheader t c buf n =
     Inr (buf @ PutUint16 (if c then setBit t 15 else t) @ PutUint16 (of_nat n))"
  by (simp add: packheader_def RecordHdr_pack_def Let_def)

lemma pack_wire: "pack rec buf = Inr (buf @ wire rec)"
  by (cases rec) (simp_all add: wire_def packsimple_def packheader_bytes RecordHdr_pack_def)

lemma Pack_loop_wire: "Pack_loop recs buf = Inr (buf @ concat (map wire recs))"
  by (induction recs arbitrary: buf) (simp_all add: pack_wire)

lemma Pack_wire: "Pack \<lparr>Records = recs\<rparr> = Inr (concat (map wire recs))"
  by (simp add: Pack_def Pack_loop_wire)

lemma type_code_setBit:
  "type_code (if c then setBit t 15 else t) = t" if "\<not> bit t 15" for t :: uint16
proof -
  have "type_code t = t"
    by (simp only: type_code_def clear_bit_eq_unset_bit unset_bit_idle [OF that])
  moreover have "unset_bit 15 (set_bit 15 t) = t"
    using that by (intro bit_word_eqI) (auto simp: bit_simps)
  then have "type_code (setBit t 15) = t"
    by (simp only: type_code_def setBit_def clear_bit_eq_unset_bit set_bit_eq_or)
  ultimately show ?thesis by simp
qed


lemma type_code_Rec [simp]:
  "type_code (if c then setBit RecNextproto 15 else RecNextproto) = RecNextproto"
  "type_code (if c then setBit RecAead 15 else RecAead) = RecAead"
  "type_code (if c then setBit RecServer 15 else RecServer) = RecServer"
  "type_code (if c then setBit RecPort 15 else RecPort) = RecPort"
  by (rule type_code_setBit, simp add: RecNextproto_def RecAead_def RecServer_def RecPort_def)+

lemma wire_simps:
  "wire (NextProto h n) = PutUint16 (setBit RecNextproto 15) @ PutUint16 2 @ PutUint16 n"
  "wire (Algorithm h [a]) = PutUint16 (setBit RecAead 15) @ PutUint16 2 @ PutUint16 a"
  "wire (Server_Record h addr c) =
     PutUint16 (if c then setBit RecServer 15 else RecServer) @
     PutUint16 (of_nat (length addr)) @ addr"
  "wire (Port_Record h port c) =
     PutUint16 (if c then setBit RecPort 15 else RecPort) @ PutUint16 2 @ PutUint16 port"
  by (simp_all add: wire_def packsimple_def packheader_bytes RecordHdr_pack_def)

lemma Read_fixed_size_step:
  assumes p: "pending r = PutUint16 ty @ PutUint16 len @ PutUint16 v @ rest"
    and t: "type_code ty = RecNextproto \<or> type_code ty = RecAead \<or> type_code ty = RecPort"
  shows "\<exists>r' d'. pending r' = rest \<and> Read r d = Read r' d'"
proof -
  from binary_Read_RecordHdr_ok [OF p] obtain r1 where
    h: "binary_Read_RecordHdr r = (Inr \<lparr>Type = ty, BodyLen = len\<rparr>, r1)"
    and p1: "pending r1 = PutUint16 v @ rest"
    by blast
  from p1 have "pending r1 = ucast (drop_bit 8 v) # ucast v # rest"
    by (simp add: PutUint16_def)
  from binary_Read_uint16_ok [OF this] obtain r2 x where
    v: "binary_Read_uint16 r1 = (Inr x, r2)" and p2: "pending r2 = rest"
    by blast
  from t v have "\<exists>d'. Read r d = Read r2 d'"
    by (auto simp: Read_unfold [OF h] RecEom_def RecNextproto_def RecAead_def RecPort_def
        RecCookie_def RecServer_def)
  with p2 show ?thesis by blast
qed

lemma Read_Server_step:
  assumes p: "pending r = PutUint16 ty @ PutUint16 (of_nat (length addr)) @ addr @ rest"
    and t: "type_code ty = RecServer"
    and l: "length addr < 65536"
  shows "\<exists>r' d'. pending r' = rest \<and> Read r d = Read r' d'"
proof -
  have len: "unat (of_nat (length addr) :: uint16) = length addr"
    using l by (simp add: unat_of_nat)
  from binary_Read_RecordHdr_ok [OF p] obtain r1 where
    h: "binary_Read_RecordHdr r = (Inr \<lparr>Type = ty, BodyLen = of_nat (length addr)\<rparr>, r1)"
    and p1: "pending r1 = addr @ rest"
    by blast
  from binary_Read_bytes_ok [OF p1] obtain r2 where
    b: "binary_Read_bytes r1 (length addr) = (Inr addr, r2)" and p2: "pending r2 = rest"
    by blast
  from t b len have "\<exists>d'. Read r d = Read r2 d'"
    by (auto simp: Read_unfold [OF h] RecEom_def RecNextproto_def RecAead_def RecPort_def
        RecCookie_def RecServer_def)
  with p2 show ?thesis by blast
qed

lemma Read_consumed_whole_step:
  assumes "consumed_whole rec" and "pending r = wire rec @ rest"
  shows "\<exists>r' d'. pending r' = rest \<and> Read r d = Read r' d'"
proof (cases rec)
  case (NextProto h n)
  with assms(2) type_code_Rec(1) [of True]
    Read_fixed_size_step [of r "setBit RecNextproto 15" 2 n rest d]
  show ?thesis by (simp add: wire_simps)
next
  case (Algorithm h algo)
  with assms(1) obtain a where "algo = [a]"
    by (cases algo) auto
  with Algorithm assms(2) type_code_Rec(2) [of True]
    Read_fixed_size_step [of r "setBit RecAead 15" 2 a rest d]
  show ?thesis by (simp add: wire_simps)
next
  case (Server_Record h addr c)
  with assms type_code_Rec(3) [of c]
    Read_Server_step [of r "if c then setBit RecServer 15 else RecServer" addr rest d]
  show ?thesis by (simp add: wire_simps)
next
  case (Port_Record h port c)
  with assms(2) type_code_Rec(4) [of c]
    Read_fixed_size_step [of r "if c then setBit RecPort 15 else RecPort" 2 port rest d]
  show ?thesis by (simp add: wire_simps)
qed (use assms(1) in simp_all)

lemma Read_without_End:
  assumes "\<forall>rec \<in> set recs. consumed_whole rec"
    and "pending r = concat (map wire recs)"
  shows "fst (Read r d) = Some io_EOF"
  using assms
proof (induction recs arbitrary: r d)
  case Nil
  then have "length (pending r) < 4" "pending r = []" by simp_all
  with binary_Read_RecordHdr_short [of r] obtain r1 where
    "binary_Read_RecordHdr r = (Inl io_EOF, r1)"
    by auto
  from Read_header_error [OF this] show ?case by simp
next
  case (Cons rec recs)
  from Cons.prems have c: "consumed_whole rec" and cs: "\<forall>rec \<in> set recs. consumed_whole rec"
    and p: "pending r = wire rec @ concat (map wire recs)"
    by simp_all
  from Read_consumed_whole_step [OF c p] obtain r' d' where
    "pending r' = concat (map wire recs)" "Read r d = Read r' d'"
    by blast
  with Cons.IH [OF cs, of r' d'] show ?case by simp
qed


text \<open>
  C6 as stated fails: the stream that \<open>Pack\<close> writes for the single record
  \<open>Algorithm [0x0f, 0, 0]\<close> holds no End-of-Message record, and \<open>Read\<close> returns success
  on it. The decoder takes two bytes of the AEAD body and decodes the other four as a
  header of type 0.
\<close>

theorem Read_without_End_counterexample:
  "Pack \<lparr>Records = [Algorithm RecordHdr_zero [0x0f, 0, 0]]\<rparr> =
     Inr [0x80, 0x04, 0x00, 0x06, 0x00, 0x0f, 0x00, 0x00, 0x00, 0x00] \<and>
   Read (NewReader [[0x80, 0x04, 0x00, 0x06, 0x00, 0x0f, 0x00, 0x00, 0x00, 0x00]]) Data_zero =
     (None, Data_zero\<lparr>Algo := 0x0f\<rparr>, \<lparr>buffered = [], rd = []\<rparr>)"
  by code_simp

text \<open>
  C6 as the code behaves. \<open>Read\<close> returns success only from the End-of-Message case:
  whenever it returns \<open>nil\<close>, the last four bytes it consumed are a header whose type
  code is 0. And a stream, however it is split into transport reads, made of any number
  of NextProtocol, one-algorithm AEAD, Server and Port records as this package packs
  them, with no End-of-Message record, makes \<open>Read\<close> fail with \<open>io.EOF\<close>.
\<close>

theorem Read_success_only_at_End:
  "(Read r d = (None, d', r') \<longrightarrow>
      (\<exists>pre hb. pending r = pre @ hb @ pending r' \<and> length hb = 4 \<and>
                type_code (BigEndian_Uint16 hb) = RecEom)) \<and>
   ((\<forall>rec \<in> set recs. consumed_whole rec) \<and> Pack \<lparr>Records = recs\<rparr> = Inr (pending s) \<longrightarrow>
      fst (Read s d) = Some io_EOF)"
  using Read_success_at_End [of r d d' r'] Read_without_End [of recs s d]
  by (auto simp: Pack_wire)

theorem Read_success_only_at_End_witness:
  "(\<exists>pre hb. pending (NewReader [[0x00, 0x07, 0x00, 0x02, 0x00], [0x7B, 0x80, 0x00, 0x00, 0x00]]) =
              pre @ hb @ pending \<lparr>buffered = [], rd = []\<rparr> \<and>
            length hb = 4 \<and> type_code (BigEndian_Uint16 hb) = RecEom) \<and>
   fst (Read (NewReader [[0x80, 0x01, 0x00, 0x02, 0x00, 0x00, 0x00],
                         [0x07, 0x00, 0x02, 0x00, 0x7B, 0x80, 0x06, 0x00, 0x03, 0x6E, 0x74],
                         [0x70]])
             Data_zero) = Some io_EOF"
proof -
  have 1: "Read (NewReader [[0x00, 0x07, 0x00, 0x02, 0x00], [0x7B, 0x80, 0x00, 0x00, 0x00]])
             Data_zero =
           (None, Data_zero\<lparr>Port := 123\<rparr>, \<lparr>buffered = [], rd = []\<rparr>)"
    by code_simp
  have 2: "\<forall>rec \<in> set [NextProto RecordHdr_zero 0, Port_Record RecordHdr_zero 123 False,
                          Server_Record RecordHdr_zero [0x6E, 0x74, 0x70] True].
             consumed_whole rec"
    by simp
  have 3: "Pack \<lparr>Records = [NextProto RecordHdr_zero 0, Port_Record RecordHdr_zero 123 False,
                             Server_Record RecordHdr_zero [0x6E, 0x74, 0x70] True]\<rparr> =
           Inr (pending (NewReader [[0x80, 0x01, 0x00, 0x02, 0x00, 0x00, 0x00],
                         [0x07, 0x00, 0x02, 0x00, 0x7B, 0x80, 0x06, 0x00, 0x03, 0x6E, 0x74],
                         [0x70]]))"
    by code_simp
  from 1 Read_success_only_at_End
    [of "NewReader [[0x00, 0x07, 0x00, 0x02, 0x00], [0x7B, 0x80, 0x00, 0x00, 0x00]]" Data_zero
      "Data_zero\<lparr>Port := 123\<rparr>" "\<lparr>buffered = [], rd = []\<rparr>"]
  have a: "\<exists>pre hb. pending (NewReader [[0x00, 0x07, 0x00, 0x02, 0x00], [0x7B, 0x80, 0x00, 0x00, 0x00]]) =
              pre @ hb @ pending \<lparr>buffered = [], rd = []\<rparr> \<and>
            length hb = 4 \<and> type_code (BigEndian_Uint16 hb) = RecEom"
    by blast
  from 2 3 Read_success_only_at_End
    [where recs = "[NextProto RecordHdr_zero 0, Port_Record RecordHdr_zero 123 False,
                    Server_Record RecordHdr_zero [0x6E, 0x74, 0x70] True]"
      and s = "NewReader [[0x80, 0x01, 0x00, 0x02, 0x00, 0x00, 0x00],
                         [0x07, 0x00, 0x02, 0x00, 0x7B, 0x80, 0x06, 0x00, 0x03, 0x6E, 0x74],
                         [0x70]]"
      and d = Data_zero]
  have b: "fst (Read (NewReader [[0x80, 0x01, 0x00, 0x02, 0x00, 0x00, 0x00],
                         [0x07, 0x00, 0x02, 0x00, 0x7B, 0x80, 0x06, 0x00, 0x03, 0x6E, 0x74],
                         [0x70]])
             Data_zero) = Some io_EOF"
    by blast
  from a b show ?thesis by blast
qed

end
